theory Spec2Isabelle
  imports Main
begin

section \<open>Values held by the translation store\<close>

text \<open>
  The store of \<^verbatim>\<open>magic-translate.tsx\<close> holds whatever \<^verbatim>\<open>JSON.parse\<close> and
  \<^verbatim>\<open>response.json()\<close> deliver, typed \<^verbatim>\<open>any\<close>.  A value is therefore a JSON value.
  An object is its list of own properties in insertion order, which is the iteration
  order of every name that is not an array index (language codes and translation keys
  are not).

  The program tests a number for truth and prints it, nothing else.  A number is given
  by what \<^verbatim>\<open>toString()\<close> prints it from: \<^verbatim>\<open>NaN\<close>, an infinity with its sign, or the sign,
  the digits \<open>s\<close> and the power of ten \<open>e\<close> of the shortest decimal \<open>s * 10 ^ e\<close> that
  reads back as the number.  The sign of zero does not show: \<^verbatim>\<open>-0\<close> is false and prints
  \<^verbatim>\<open>0\<close>.
\<close>

datatype number = NaN | Infinity bool | Finite bool nat int

datatype json =
    JNull
  | JBool bool
  | JNum number
  | JStr string
  | JArr "json list"
  | JObj "(string \<times> json) list"

type_synonym obj = "(string \<times> json) list"

definition whole :: "nat \<Rightarrow> number" where
  "whole n = Finite False n 0"

definition digit_char :: "nat \<Rightarrow> char" where
  "digit_char d = ''0123456789'' ! d"

fun nat_to_string :: "nat \<Rightarrow> string" where
  "nat_to_string n =
     (if n < 10 then [digit_char n] else nat_to_string (n div 10) @ [digit_char (n mod 10)])"

declare nat_to_string.simps [simp del]

text \<open>
  \<^verbatim>\<open>Number.prototype.toString\<close> in base ten.  With \<open>k\<close> digits left when the trailing
  zeros are dropped, and the decimal point \<open>n\<close> places to the right of the place before
  the first digit, the number is printed as an integer when \<open>k \<le> n \<le> 21\<close>, with a point
  inside the digits when \<open>0 < n \<le> 21\<close>, as \<^verbatim>\<open>0.00ddd\<close> when \<open>-6 < n \<le> 0\<close>, and with an
  exponent otherwise.
\<close>

definition strip_zeros :: "string \<Rightarrow> string" where
  "strip_zeros ds = rev (dropWhile (\<lambda>c. c = CHR ''0'') (rev ds))"

definition finite_to_string :: "nat \<Rightarrow> int \<Rightarrow> string" where
  "finite_to_string s e =
     (let all_digits = nat_to_string s;
          ds = strip_zeros all_digits;
          k = int (length ds);
          n = int (length all_digits) + e
      in if k \<le> n \<and> n \<le> 21 then ds @ replicate (nat (n - k)) (CHR ''0'')
         else if 0 < n \<and> n \<le> 21 then take (nat n) ds @ ''.'' @ drop (nat n) ds
         else if - 6 < n \<and> n \<le> 0 then ''0.'' @ replicate (nat (- n)) (CHR ''0'') @ ds
         else (let x = n - 1;
                   ex = (if x < 0 then ''-'' else ''+'') @ nat_to_string (nat \<bar>x\<bar>)
               in case ds of
                    [] \<Rightarrow> ''0''
                  | d # rest \<Rightarrow>
                      (if rest = [] then d # CHR ''e'' # ex
                       else d # CHR ''.'' # rest @ CHR ''e'' # ex)))"

definition number_to_string :: "number \<Rightarrow> string" where
  "number_to_string x =
     (case x of
        NaN \<Rightarrow> ''NaN''
      | Infinity negative \<Rightarrow> (if negative then ''-Infinity'' else ''Infinity'')
      | Finite negative s e \<Rightarrow>
          (if s = 0 then ''0''
           else (if negative then ''-'' else []) @ finite_to_string s e))"

text \<open>\<^verbatim>\<open>typeof value\<close>, and the truthiness that \<^verbatim>\<open>value && ...\<close> tests.\<close>

fun typeof :: "json \<Rightarrow> string" where
  "typeof JNull = ''object''"
| "typeof (JBool b) = ''boolean''"
| "typeof (JNum n) = ''number''"
| "typeof (JStr s) = ''string''"
| "typeof (JArr xs) = ''object''"
| "typeof (JObj kvs) = ''object''"

fun truthy :: "json \<Rightarrow> bool" where
  "truthy JNull = False"
| "truthy (JBool b) = b"
| "truthy (JNum x) =
     (case x of NaN \<Rightarrow> False | Infinity negative \<Rightarrow> True | Finite negative s e \<Rightarrow> s \<noteq> 0)"
| "truthy (JStr s) = (s \<noteq> [])"
| "truthy (JArr xs) = True"
| "truthy (JObj kvs) = True"

text \<open>
  Own enumerable properties, as \<^verbatim>\<open>Object.keys\<close> and the spread \<^verbatim>\<open>{...v}\<close> see them:
  the entries of an object, the indexed elements of an array, the indexed characters of a
  string, nothing for the other values.
\<close>

fun own_props :: "json \<Rightarrow> obj" where
  "own_props (JObj kvs) = kvs"
| "own_props (JArr xs) = zip (map nat_to_string [0..<length xs]) xs"
| "own_props (JStr s) = zip (map nat_to_string [0..<length s]) (map (\<lambda>c. JStr [c]) s)"
| "own_props v = []"

text \<open>The own properties of an object or an array that a lookup by name finds.\<close>

fun own_prop :: "json \<Rightarrow> string \<Rightarrow> json option" where
  "own_prop (JObj kvs) k = map_of kvs k"
| "own_prop (JArr xs) k =
     (if k = ''length'' then Some (JNum (whole (length xs)))
      else map_of (own_props (JArr xs)) k)"
| "own_prop v k = None"

subsection \<open>What a lookup reaches through the prototype chain\<close>

text \<open>
  \<^verbatim>\<open>k in value\<close> and \<^verbatim>\<open>value[k]\<close> see the own properties of an object and the members it
  inherits: those of \<^verbatim>\<open>Object.prototype\<close>, and before them those of \<^verbatim>\<open>Array.prototype\<close> for
  an array.  The host gives these members, all of them functions, each with the text its
  \<^verbatim>\<open>toString()\<close> returns.  \<^verbatim>\<open>__proto__\<close> is the accessor of \<^verbatim>\<open>Object.prototype\<close>: it answers
  with the prototype of the object asked, \<^verbatim>\<open>null\<close> for \<^verbatim>\<open>Object.prototype\<close> itself.  So a
  lookup reaches JSON data, a function of the host, or one of the two prototype objects.
\<close>

record host =
  object_members :: "(string \<times> string) list"
  array_members :: "(string \<times> string) list"

datatype val = Data json | Function string | ObjectPrototype | ArrayPrototype

fun val_typeof :: "val \<Rightarrow> string" where
  "val_typeof (Data j) = typeof j"
| "val_typeof (Function text) = ''function''"
| "val_typeof ObjectPrototype = ''object''"
| "val_typeof ArrayPrototype = ''object''"

fun val_truthy :: "val \<Rightarrow> bool" where
  "val_truthy (Data j) = truthy j"
| "val_truthy v = True"

definition function_member :: "(string \<times> string) list \<Rightarrow> string \<Rightarrow> val option" where
  "function_member members k = map_option Function (map_of members k)"

text \<open>What an object or an array inherits under a name it has no own property for.\<close>

fun inherited :: "host \<Rightarrow> json \<Rightarrow> string \<Rightarrow> val option" where
  "inherited h (JObj kvs) k =
     (if k = ''__proto__'' then Some ObjectPrototype
      else function_member (object_members h) k)"
| "inherited h (JArr xs) k =
     (if k = ''__proto__'' then Some ArrayPrototype
      else (case function_member (array_members h) k of
              Some f \<Rightarrow> Some f
            | None \<Rightarrow> function_member (object_members h) k))"
| "inherited h v k = None"

text \<open>
  \<^verbatim>\<open>value[k]\<close> on a value whose \<^verbatim>\<open>typeof\<close> is object; \<open>None\<close> is \<^verbatim>\<open>undefined\<close>.  Every
  property here has a value other than \<^verbatim>\<open>undefined\<close>, so \<^verbatim>\<open>k in value\<close> holds exactly when
  the lookup gives a value.
\<close>

fun get_prop :: "host \<Rightarrow> val \<Rightarrow> string \<Rightarrow> val option" where
  "get_prop h (Data j) k =
     (case own_prop j k of Some x \<Rightarrow> Some (Data x) | None \<Rightarrow> inherited h j k)"
| "get_prop h ObjectPrototype k =
     (if k = ''__proto__'' then Some (Data JNull)
      else function_member (object_members h) k)"
| "get_prop h ArrayPrototype k =
     (if k = ''__proto__'' then Some ObjectPrototype
      else if k = ''length'' then Some (Data (JNum (whole 0)))
      else (case function_member (array_members h) k of
              Some f \<Rightarrow> Some f
            | None \<Rightarrow> function_member (object_members h) k))"
| "get_prop h (Function text) k = None"

definition has_prop :: "host \<Rightarrow> val \<Rightarrow> string \<Rightarrow> bool" where
  "has_prop h v k = (get_prop h v k \<noteq> None)"

section \<open>The store\<close>

datatype error = SyntaxError

text \<open>
  What a \<^verbatim>\<open>localStorage\<close> slot holds, seen through \<^verbatim>\<open>JSON.parse\<close>: no entry, the empty
  text, a text \<^verbatim>\<open>JSON.parse\<close> rejects, or the text \<^verbatim>\<open>JSON.stringify\<close> wrote for a value.
\<close>

datatype 'a persisted = Missing | EmptyText | Malformed | Document 'a

record local_storage =
  magic_translations :: "obj persisted"
  magic_translation_metadata :: "obj persisted"
  magic_lang :: "string option"

record store =
  globalTranslations :: obj
  translationMetadata :: obj
  globalLang :: string
  globalKeys :: "string set"
  localStorage :: local_storage

text \<open>\<^verbatim>\<open>JSON.parse(localStorage.getItem(slot) || '{}')\<close>.\<close>

fun parse_slot :: "obj persisted \<Rightarrow> error + obj" where
  "parse_slot Missing = Inr []"
| "parse_slot EmptyText = Inr []"
| "parse_slot Malformed = Inl SyntaxError"
| "parse_slot (Document d) = Inr d"

text \<open>
  Module initialisation (lines 11 to 29): in a browser, with \<^verbatim>\<open>MAGIC_CONFIG.enableUI\<close>
  given as \<open>enableUI\<close>.
\<close>

definition init_store :: "bool \<Rightarrow> local_storage \<Rightarrow> error + store" where
  "init_store enableUI ls =
     (let lang = (case magic_lang ls of None \<Rightarrow> ''en'' | Some l \<Rightarrow> if l = [] then ''en'' else l)
      in if enableUI then
           (case parse_slot (magic_translations ls) of
              Inl e \<Rightarrow> Inl e
            | Inr g \<Rightarrow>
                (case parse_slot (magic_translation_metadata ls) of
                   Inl e \<Rightarrow> Inl e
                 | Inr m \<Rightarrow>
                     Inr \<lparr>globalTranslations = g, translationMetadata = m, globalLang = lang,
                          globalKeys = {}, localStorage = ls\<rparr>))
         else
           Inr \<lparr>globalTranslations = [], translationMetadata = [], globalLang = lang,
                globalKeys = {}, localStorage = ls\<rparr>)"

section \<open>Key resolution\<close>

text \<open>\<^verbatim>\<open>key.split('.')\<close>: never empty, the empty key gives one empty segment.\<close>

fun split_dot :: "string \<Rightarrow> string list" where
  "split_dot [] = [[]]"
| "split_dot (c # cs) =
     (if c = CHR ''.'' then [] # split_dot cs
      else (case split_dot cs of [] \<Rightarrow> [[c]] | w # ws \<Rightarrow> (c # w) # ws))"

text \<open>
  The loop of \<^verbatim>\<open>internalT\<close> (lines 139 to 146); \<open>None\<close> is \<^verbatim>\<open>undefined\<close>, also after
  the \<^verbatim>\<open>break\<close>.
\<close>

fun walk :: "host \<Rightarrow> val option \<Rightarrow> string list \<Rightarrow> val option" where
  "walk h value [] = value"
| "walk h value (k # ks) =
     (case value of
        None \<Rightarrow> None
      | Some v \<Rightarrow>
          (if val_truthy v \<and> val_typeof v = ''object'' \<and> has_prop h v k
           then walk h (get_prop h v k) ks
           else None))"

text \<open>
  The two sentinel strings and the diagnostic of line 156.  \<open>quoted k\<close> is \<open>k\<close> between
  double quotes.
\<close>

definition quoted :: "string \<Rightarrow> string" where
  "quoted k = CHR 0x22 # k @ [CHR 0x22]"

definition todo_fallback :: "string \<Rightarrow> string" where
  "todo_fallback key = ''TODO: Translate '' @ quoted key"

definition object_fallback :: "string \<Rightarrow> string" where
  "object_fallback key = ''[Object: '' @ key @ '']''"

definition object_warning :: "string \<Rightarrow> string" where
  "object_warning key =
     ''TinyLocalize Warning: Translation key '' @ quoted key @
     '' returns an object, not a string. This will cause React errors. '' @
     ''Use a more specific key like '' @ quoted (key @ ''.title'') @ '' or '' @
     quoted (key @ ''.description'') @ ''.''"

subsection \<open>Interpolation\<close>

text \<open>Interpolation variables are typed \<^verbatim>\<open>Record<string, string | number>\<close>.\<close>

datatype var = VStr string | VNum number

fun var_to_string :: "var \<Rightarrow> string" where
  "var_to_string (VStr s) = s"
| "var_to_string (VNum n) = number_to_string n"

text \<open>The class \<^verbatim>\<open>\w\<close> of the regular expression: letters, digits and the underscore.\<close>

definition is_word_char :: "char \<Rightarrow> bool" where
  "is_word_char c =
     (c \<in> set ''abcdefghijklmnopqrstuvwxyzABCDEFGHIJKLMNOPQRSTUVWXYZ0123456789_'')"

text \<open>
  A match of \<^verbatim>\<open>\{\{(\w+)\}\}\<close> at the head of the text: the captured name and the text after
  the match.  The group \<^verbatim>\<open>\w+\<close> is greedy, and no shorter run can be followed by a brace,
  so the name is the longest run of word characters.
\<close>

definition match_placeholder :: "string \<Rightarrow> (string \<times> string) option" where
  "match_placeholder s =
     (case s of
        c1 # c2 # r \<Rightarrow>
          (if c1 = CHR ''{'' \<and> c2 = CHR ''{'' then
             (let name = takeWhile is_word_char r; rest = dropWhile is_word_char r
              in if name = [] then None
                 else (case rest of
                         d1 # d2 # t \<Rightarrow>
                           (if d1 = CHR ''}'' \<and> d2 = CHR ''}'' then Some (name, t) else None)
                       | _ \<Rightarrow> None))
           else None)
      | _ \<Rightarrow> None)"

text \<open>
  \<^verbatim>\<open>text.replace(/\{\{(\w+)\}\}/g, f)\<close>: scan from the left, replace each match by what the
  callback gives for the matched text and the captured name, continue after the match.
\<close>

function replace_placeholders :: "(string \<Rightarrow> string \<Rightarrow> string) \<Rightarrow> string \<Rightarrow> string" where
  "replace_placeholders f [] = []"
| "replace_placeholders f (c # cs) =
     (case match_placeholder (c # cs) of
        Some (name, rest) \<Rightarrow> f (''{{'' @ name @ ''}}'') name @ replace_placeholders f rest
      | None \<Rightarrow> c # replace_placeholders f cs)"
  by pat_completeness auto
termination
proof (relation "measure (\<lambda>(f, s). length s)", goal_cases)
  case 1
  show ?case by simp
next
  case (2 f c cs)
  show ?case by simp
next
  case (3 f c cs p name rest)
  then have m: "match_placeholder (c # cs) = Some (name, rest)" by simp
  then obtain a r where cs: "cs = a # r"
    by (cases cs) (auto simp: match_placeholder_def)
  from m cs have d: "dropWhile is_word_char r = CHR ''}'' # CHR ''}'' # rest"
    by (auto simp: match_placeholder_def Let_def split: if_splits list.splits)
  have "length (dropWhile is_word_char r) \<le> length r"
    by (rule length_dropWhile_le)
  with d cs show ?case by simp
qed

text \<open>
  The callback of line 163: \<^verbatim>\<open>vars[varName]?.toString() || match\<close>.  The variables are a
  plain object: a name that is not a key of it still finds the members of
  \<^verbatim>\<open>Object.prototype\<close>, a function with its text, and under \<^verbatim>\<open>__proto__\<close> the prototype
  itself, which prints as \<^verbatim>\<open>[object Object]\<close>.
\<close>

definition substitute :: "host \<Rightarrow> (string \<times> var) list \<Rightarrow> string \<Rightarrow> string \<Rightarrow> string" where
  "substitute h vars match varName =
     (case map_of vars varName of
        Some x \<Rightarrow> (let r = var_to_string x in if r = [] then match else r)
      | None \<Rightarrow>
          (if varName = ''__proto__'' then ''[object Object]''
           else (case map_of (object_members h) varName of
                   Some text \<Rightarrow> if text = [] then match else text
                 | None \<Rightarrow> match)))"

subsection \<open>The resolver\<close>

text \<open>
  \<^verbatim>\<open>internalT(key, vars)\<close> returns the resolved text; the model returns with it the lines
  written by \<^verbatim>\<open>console.warn\<close> and the store after the call.  The walk starts at
  \<^verbatim>\<open>globalTranslations[globalLang]\<close>, a lookup in a plain object.  The cases follow the
  source's order: \<^verbatim>\<open>undefined\<close> or \<^verbatim>\<open>null\<close>, then \<^verbatim>\<open>typeof value === 'object'\<close>, then a
  string with variables, then \<^verbatim>\<open>value?.toString() || fallback\<close>, which is where a function
  ends.
\<close>

definition internalT ::
  "host \<Rightarrow> string \<Rightarrow> (string \<times> var) list \<Rightarrow> store \<Rightarrow> string \<times> string list \<times> store" where
  "internalT h key vars s =
     (let s' = s\<lparr>globalKeys := insert key (globalKeys s)\<rparr>;
          keys = split_dot key;
          value = walk h (get_prop h (Data (JObj (globalTranslations s))) (globalLang s)) keys
      in case value of
           None \<Rightarrow> (todo_fallback key, [], s')
         | Some (Data JNull) \<Rightarrow> (todo_fallback key, [], s')
         | Some (Data (JObj kvs)) \<Rightarrow> (object_fallback key, [object_warning key], s')
         | Some (Data (JArr xs)) \<Rightarrow> (object_fallback key, [object_warning key], s')
         | Some ObjectPrototype \<Rightarrow> (object_fallback key, [object_warning key], s')
         | Some ArrayPrototype \<Rightarrow> (object_fallback key, [object_warning key], s')
         | Some (Data (JStr str)) \<Rightarrow>
             (if vars \<noteq> [] then (replace_placeholders (substitute h vars) str, [], s')
              else (if str = [] then todo_fallback key else str, [], s'))
         | Some (Data (JNum n)) \<Rightarrow>
             (let r = number_to_string n in (if r = [] then todo_fallback key else r, [], s'))
         | Some (Data (JBool b)) \<Rightarrow>
             (let r = (if b then ''true'' else ''false'')
              in (if r = [] then todo_fallback key else r, [], s'))
         | Some (Function text) \<Rightarrow> (if text = [] then todo_fallback key else text, [], s'))"

section \<open>Objects: assignment, deletion, spread\<close>

text \<open>
  \<^verbatim>\<open>o[k] = v\<close>: an existing property keeps its place and takes the new value, a new one
  is added last.  \<^verbatim>\<open>delete o[k]\<close> removes the property.
\<close>

fun obj_set :: "string \<Rightarrow> json \<Rightarrow> obj \<Rightarrow> obj" where
  "obj_set k v [] = [(k, v)]"
| "obj_set k v ((k', v') # kvs) =
     (if k' = k then (k, v) # kvs else (k', v') # obj_set k v kvs)"

definition obj_delete :: "string \<Rightarrow> obj \<Rightarrow> obj" where
  "obj_delete k kvs = filter (\<lambda>(k', v). k' \<noteq> k) kvs"

definition obj_keys :: "obj \<Rightarrow> string list" where
  "obj_keys kvs = map fst kvs"

text \<open>The own properties a spread copies; spreading \<^verbatim>\<open>undefined\<close> copies nothing.\<close>

fun props :: "json option \<Rightarrow> obj" where
  "props None = []"
| "props (Some v) = own_props v"

definition obj_assign :: "obj \<Rightarrow> obj \<Rightarrow> obj" where
  "obj_assign src target = fold (\<lambda>(k, v). obj_set k v) src target"

text \<open>The object literal \<^verbatim>\<open>{ ...a, ...b }\<close>.\<close>

definition spread :: "json option \<Rightarrow> json option \<Rightarrow> obj" where
  "spread a b = obj_assign (props b) (obj_assign (props a) [])"

text \<open>\<^verbatim>\<open>Object.keys(x || {})\<close>.\<close>

definition keys_or_empty :: "json option \<Rightarrow> string list" where
  "keys_or_empty x =
     (case x of
        None \<Rightarrow> []
      | Some v \<Rightarrow> if truthy v then map fst (own_props v) else [])"

section \<open>Reconciliation with the base source\<close>

text \<open>
  The base source answers a language code with the tree of \<^verbatim>\<open>/locales/<code>.json\<close>, or
  with \<open>None\<close> when the fetch fails, the response is not ok or its body does not parse:
  the source skips the language in each of these cases.  A reconciliation is modelled
  run to completion, its fetches answered in the order of the loop.
\<close>

type_synonym base_source = "string \<Rightarrow> json option"

definition languagesToTry :: "string list" where
  "languagesToTry = [''en'', ''fr'', ''es'', ''de'']"

text \<open>
  One round of the loop of \<^verbatim>\<open>loadProductionTranslations\<close> (lines 39 to 57).  The four
  codes name no inherited member, so \<^verbatim>\<open>globalTranslations[lang]\<close> is the own property or
  \<^verbatim>\<open>undefined\<close>.
\<close>

definition load_language :: "bool \<Rightarrow> base_source \<Rightarrow> string \<Rightarrow> obj \<Rightarrow> obj" where
  "load_language enableUI fetch lang g =
     (case fetch lang of
        None \<Rightarrow> g
      | Some prodTranslations \<Rightarrow>
          (if enableUI then
             obj_set lang (JObj (spread (Some prodTranslations) (map_of g lang))) g
           else obj_set lang prodTranslations g))"

definition loadProductionTranslations :: "bool \<Rightarrow> base_source \<Rightarrow> store \<Rightarrow> store" where
  "loadProductionTranslations enableUI fetch s =
     s\<lparr>globalTranslations :=
         fold (load_language enableUI fetch) languagesToTry (globalTranslations s)\<rparr>"

text \<open>\<^verbatim>\<open>initializeTranslations\<close> (lines 67 to 92): load, then drop the languages left empty.\<close>

definition initializeTranslations :: "bool \<Rightarrow> base_source \<Rightarrow> store \<Rightarrow> store" where
  "initializeTranslations enableUI fetch s =
     (let s1 = loadProductionTranslations enableUI fetch s;
          g = globalTranslations s1;
          loadedLanguages =
            filter (\<lambda>lang. length (keys_or_empty (map_of g lang)) > 0) (obj_keys g);
          existingLanguages = obj_keys g;
          languagesToRemove =
            filter (\<lambda>lang. lang \<notin> set loadedLanguages) existingLanguages
      in if length languagesToRemove > 0 then
           (let s2 = s1\<lparr>globalTranslations := fold obj_delete languagesToRemove g,
                         translationMetadata :=
                           fold obj_delete languagesToRemove (translationMetadata s1)\<rparr>
            in if enableUI then
                 s2\<lparr>localStorage := (localStorage s2)
                      \<lparr>magic_translations := Document (globalTranslations s2),
                       magic_translation_metadata := Document (translationMetadata s2)\<rparr>\<rparr>
               else s2)
         else s1)"

section \<open>Mutations of the store\<close>

definition saveToStorage :: "bool \<Rightarrow> store \<Rightarrow> store" where
  "saveToStorage enableUI s =
     (if \<not> enableUI then s
      else s\<lparr>localStorage := (localStorage s)
               \<lparr>magic_translations := Document (globalTranslations s),
                magic_translation_metadata := Document (translationMetadata s)\<rparr>\<rparr>)"

text \<open>
  \<^verbatim>\<open>setCurrentLang\<close> (lines 174 to 195).  The reload it starts is not awaited: it changes
  the store only after \<^verbatim>\<open>setCurrentLang\<close> has returned.  A \<^verbatim>\<open>JSON.parse\<close> that throws
  leaves the assignments made before it in place; the model returns the error with the
  store reached.  Where \<^verbatim>\<open>globalTranslations[langKey]\<close> finds an inherited member, a
  function or the prototype, the spread copies nothing from it, as from \<^verbatim>\<open>undefined\<close>.
  A persisted language named \<^verbatim>\<open>__proto__\<close> is not among the inputs considered:
  assigning under that name replaces the prototype of the store instead of adding a
  property.
\<close>

definition setCurrentLang :: "bool \<Rightarrow> string \<Rightarrow> store \<Rightarrow> error option \<times> store" where
  "setCurrentLang enableUI lang s =
     (let s1 = s\<lparr>globalLang := lang,
                  localStorage := (localStorage s)\<lparr>magic_lang := Some lang\<rparr>\<rparr>
      in if enableUI then
           (case parse_slot (magic_translations (localStorage s1)) of
              Inl e \<Rightarrow> (Some e, s1)
            | Inr localStorageTranslations \<Rightarrow>
                (None,
                 s1\<lparr>globalTranslations :=
                      fold (\<lambda>langKey g.
                              obj_set langKey
                                (JObj (spread (map_of g langKey)
                                         (map_of localStorageTranslations langKey))) g)
                        (obj_keys localStorageTranslations) (globalTranslations s1)\<rparr>))
         else (None, s1))"

text \<open>
  \<^verbatim>\<open>removeLanguage\<close> of the editor panel (lines 331 to 351 of the second source file).
  \<open>confirmed\<close> is the answer to the \<^verbatim>\<open>confirm\<close> dialog; the second component of the result
  holds the texts shown by \<^verbatim>\<open>alert\<close>.
\<close>

definition removeLanguage ::
  "bool \<Rightarrow> bool \<Rightarrow> string \<Rightarrow> store \<Rightarrow> error option \<times> string list \<times> store" where
  "removeLanguage enableUI confirmed langToRemove s =
     (if length (obj_keys (globalTranslations s)) \<le> 1 then
        (None, [''Cannot remove the last language. At least one language must remain.''], s)
      else if confirmed then
        (let s1 = s\<lparr>globalTranslations := obj_delete langToRemove (globalTranslations s)\<rparr>;
             r = (if globalLang s1 = langToRemove then
                    (case obj_keys (globalTranslations s1) of
                       [] \<Rightarrow> (None, s1)
                     | first # remaining \<Rightarrow> setCurrentLang enableUI first s1)
                  else (None, s1))
         in case fst r of
              Some e \<Rightarrow> (Some e, [], snd r)
            | None \<Rightarrow> (None, [], saveToStorage enableUI (snd r)))
      else (None, [], s))"

section \<open>The notions the properties are stated with\<close>

text \<open>
  A branch is an internal node: a value with properties to descend into.  \<open>path_value\<close>
  is the node a key path addresses in a tree, by the tree's own properties, \<open>None\<close> when
  a segment is missing or the descent meets a node that is not a branch.  A name is
  inherited when a lookup finds it on an object that has no such property of its own.
\<close>

fun is_branch :: "json \<Rightarrow> bool" where
  "is_branch (JObj kvs) = True"
| "is_branch (JArr xs) = True"
| "is_branch v = False"

fun path_value :: "json \<Rightarrow> string list \<Rightarrow> json option" where
  "path_value t [] = Some t"
| "path_value t (k # ks) =
     (if is_branch t then
        (case own_prop t k of None \<Rightarrow> None | Some v \<Rightarrow> path_value v ks)
      else None)"

definition inherited_name :: "host \<Rightarrow> string \<Rightarrow> bool" where
  "inherited_name h k =
     (k = ''__proto__'' \<or> map_of (object_members h) k \<noteq> None \<or>
      map_of (array_members h) k \<noteq> None)"

text \<open>
  For the proofs about reconciliation: the tree one round of the loop stores for a
  language, from the fetched document and the tree held before; the languages whose tree
  has no keys, which the clean-up of \<open>initializeTranslations\<close> removes; the removal of a list
  of keys; and the entries a second reconciliation adds after those of a reconciled
  store, each for a language removed by the first one and again without keys.
\<close>

definition effective :: "bool \<Rightarrow> json \<Rightarrow> json option \<Rightarrow> json" where
  "effective enableUI base old = (if enableUI then JObj (spread (Some base) old) else base)"

definition dead_languages :: "obj \<Rightarrow> string list" where
  "dead_languages g = filter (\<lambda>lang. keys_or_empty (map_of g lang) = []) (map fst g)"

definition sweep :: "string list \<Rightarrow> obj \<Rightarrow> obj" where
  "sweep ks g = filter (\<lambda>(k, v). k \<notin> set ks) g"

definition appended :: "bool \<Rightarrow> base_source \<Rightarrow> string set \<Rightarrow> obj \<Rightarrow> obj \<Rightarrow> bool" where
  "appended enableUI fetch D g e =
     (\<forall>(k, t) \<in> set e.
        k \<notin> fst ` set g \<and> k \<in> D \<and> keys_or_empty (Some t) = [] \<and>
        (\<exists>base. fetch k = Some base \<and> t = effective enableUI base None))"

text \<open>
  The occurrences of \<^verbatim>\<open>{{name}}\<close> in a text: the text cut into its placeholders and the
  characters between them.
\<close>

datatype piece = Text char | Placeholder string

function pieces :: "string \<Rightarrow> piece list" where
  "pieces [] = []"
| "pieces (c # cs) =
     (case match_placeholder (c # cs) of
        Some (name, rest) \<Rightarrow> Placeholder name # pieces rest
      | None \<Rightarrow> Text c # pieces cs)"
  by pat_completeness auto
termination
proof (relation "measure length", goal_cases)
  case 1
  show ?case by simp
next
  case (2 c cs)
  show ?case by simp
next
  case (3 c cs p name rest)
  then have m: "match_placeholder (c # cs) = Some (name, rest)" by simp
  then obtain a r where cs: "cs = a # r"
    by (cases cs) (auto simp: match_placeholder_def)
  from m cs have d: "dropWhile is_word_char r = CHR ''}'' # CHR ''}'' # rest"
    by (auto simp: match_placeholder_def Let_def split: if_splits list.splits)
  have "length (dropWhile is_word_char r) \<le> length r"
    by (rule length_dropWhile_le)
  with d cs show ?case by simp
qed

fun piece_text :: "piece \<Rightarrow> string" where
  "piece_text (Text c) = [c]"
| "piece_text (Placeholder n) = ''{{'' @ n @ ''}}''"

text \<open>
  What interpolation makes of a piece: a placeholder whose name is a key of the variables
  and whose entry converts to a non-empty string becomes that string, every other piece
  stays as it is.
\<close>

fun interpolated_piece :: "(string \<times> var) list \<Rightarrow> piece \<Rightarrow> string" where
  "interpolated_piece vars (Text c) = [c]"
| "interpolated_piece vars (Placeholder n) =
     (case map_of vars n of
        None \<Rightarrow> ''{{'' @ n @ ''}}''
      | Some x \<Rightarrow> if var_to_string x = [] then ''{{'' @ n @ ''}}'' else var_to_string x)"

definition placeholder_names :: "string \<Rightarrow> string list" where
  "placeholder_names s = concat (map (\<lambda>p. case p of Placeholder n \<Rightarrow> [n] | Text c \<Rightarrow> []) (pieces s))"

section \<open>A sample host and sample stores\<close>

text \<open>
  The members of \<^verbatim>\<open>Object.prototype\<close> and the older ones of \<^verbatim>\<open>Array.prototype\<close>, with the
  text a browser prints for a function of the host.
\<close>

definition native :: "string \<Rightarrow> string" where
  "native name = ''function '' @ name @ ''() { [native code] }''"

definition sample_host :: host where
  "sample_host =
     \<lparr>object_members =
        (''constructor'', native ''Object'') #
        map (\<lambda>name. (name, native name))
          [''toString'', ''toLocaleString'', ''valueOf'', ''hasOwnProperty'',
           ''isPrototypeOf'', ''propertyIsEnumerable'', ''__defineGetter__'',
           ''__defineSetter__'', ''__lookupGetter__'', ''__lookupSetter__''],
      array_members =
        (''constructor'', native ''Array'') #
        map (\<lambda>name. (name, native name))
          [''concat'', ''every'', ''filter'', ''forEach'', ''indexOf'', ''join'',
           ''lastIndexOf'', ''map'', ''pop'', ''push'', ''reduce'', ''reduceRight'',
           ''reverse'', ''shift'', ''slice'', ''some'', ''sort'', ''splice'',
           ''toLocaleString'', ''toString'', ''unshift'']\<rparr>"


definition sample_storage :: local_storage where
  "sample_storage =
     \<lparr>magic_translations = Missing, magic_translation_metadata = Missing, magic_lang = None\<rparr>"

definition sample_tree :: json where
  "sample_tree =
     JObj [(''welcome'', JObj [(''title'', JStr ''Hello'')]),
           (''greeting'', JStr ''Hi, {{name}}!''),
           (''blank'', JStr [])]"

definition sample_store :: store where
  "sample_store =
     \<lparr>globalTranslations = [(''en'', sample_tree)], translationMetadata = [],
      globalLang = ''en'', globalKeys = {}, localStorage = sample_storage\<rparr>"

text \<open>
  A store with two languages, one of them with metadata, persisted as it is; and a base
  document and an override for English that collide on two top-level keys.
\<close>

definition two_language_tree :: obj where
  "two_language_tree =
     [(''en'', JObj [(''hello'', JStr ''Hello'')]),
      (''fr'', JObj [(''hello'', JStr ''Bonjour'')])]"

definition french_metadata :: obj where
  "french_metadata =
     [(''fr'', JObj [(''hello'', JObj [(''lastModified'', JNum (whole 1)),
                                       (''characterCount'', JNum (whole 7)),
                                       (''status'', JStr ''complete'')])])]"

definition two_language_store :: "string \<Rightarrow> store" where
  "two_language_store active =
     \<lparr>globalTranslations = two_language_tree, translationMetadata = french_metadata,
      globalLang = active, globalKeys = {},
      localStorage = \<lparr>magic_translations = Document two_language_tree,
                      magic_translation_metadata = Document french_metadata,
                      magic_lang = Some active\<rparr>\<rparr>"

definition english_base :: json where
  "english_base =
     JObj [(''hello'', JStr ''Hello from the file''),
           (''menu'', JObj [(''open'', JStr ''Open''), (''close'', JStr ''Close'')]),
           (''bye'', JStr ''Bye'')]"

definition english_override :: json where
  "english_override =
     JObj [(''menu'', JObj [(''open'', JStr ''Open it'')]), (''hello'', JStr ''Hello'')]"

definition override_store :: store where
  "override_store =
     \<lparr>globalTranslations = [(''en'', english_override)], translationMetadata = [],
      globalLang = ''en'', globalKeys = {}, localStorage = sample_storage\<rparr>"

definition english_only :: base_source where
  "english_only lang = (if lang = ''en'' then Some english_base else None)"

text \<open>A base source whose German document is the empty object.\<close>

definition german_empty :: base_source where
  "german_empty lang =
     (if lang = ''de'' then Some (JObj [])
      else if lang = ''en'' then Some (JObj [(''bye'', JStr ''Bye'')])
      else None)"

section \<open>Properties of the resolver\<close>

subsection \<open>Own paths\<close>

lemma branch_object: "is_branch t \<Longrightarrow> val_truthy (Data t) \<and> val_typeof (Data t) = ''object''"
  by (cases t) auto

lemma walk_None: "walk h None ks = None"
  by (cases ks) auto

text \<open>An own property shadows the chain, so the walk follows a path the tree has.\<close>

lemma walk_own_path: "path_value t ks = Some v \<Longrightarrow> walk h (Some (Data t)) ks = Some (Data v)"
proof (induction ks arbitrary: t)
  case Nil
  then show ?case by simp
next
  case (Cons k ks)
  from Cons.prems have b: "is_branch t"
    by (simp split: if_splits)
  with Cons.prems obtain x where x: "own_prop t k = Some x" and p: "path_value x ks = Some v"
    by (auto split: option.splits)
  from x have "get_prop h (Data t) k = Some (Data x)" by simp
  with branch_object [OF b] Cons.IH [OF p] show ?case
    by (simp add: has_prop_def)
qed

lemma store_lookup:
  "map_of g lang = Some tree \<Longrightarrow> get_prop h (Data (JObj g)) lang = Some (Data tree)"
  by simp

lemma internalT_own_path:
  assumes "map_of (globalTranslations s) (globalLang s) = Some tree"
    and "path_value tree (split_dot key) = Some v"
  shows "walk h (get_prop h (Data (JObj (globalTranslations s))) (globalLang s)) (split_dot key) =
           Some (Data v)"
  using assms by (simp only: store_lookup walk_own_path)

lemma internalT_leaf:
  assumes "map_of (globalTranslations s) (globalLang s) = Some tree"
    and "path_value tree (split_dot key) = Some (JStr str)"
  shows "internalT h key vars s =
           (if vars \<noteq> [] then replace_placeholders (substitute h vars) str
            else if str = [] then todo_fallback key else str,
            [], s\<lparr>globalKeys := insert key (globalKeys s)\<rparr>)"
  using internalT_own_path [OF assms] by (simp add: internalT_def)

text \<open>
  C1, as the code has it: when the key path reaches a leaf holding a string and no
  interpolation variables are given, \<open>internalT\<close> returns exactly that string when it is not
  empty; an empty stored string is not returned, the fallback
  \<^verbatim>\<open>TODO: Translate "<key>"\<close> is (the last line of \<^verbatim>\<open>internalT\<close>,
  \<^verbatim>\<open>value?.toString() || ...\<close>).  This holds in every host.
\<close>

theorem resolve_string_leaf:
  assumes "map_of (globalTranslations s) (globalLang s) = Some tree"
    and "path_value tree (split_dot key) = Some (JStr str)"
  shows "fst (internalT h key [] s) = (if str = [] then todo_fallback key else str)"
  using assms by (simp add: internalT_leaf)

text \<open>The theorem at the leaf \<^verbatim>\<open>welcome.title\<close> of the sample store.\<close>

theorem resolve_string_leaf_witness:
  "fst (internalT sample_host ''welcome.title'' [] sample_store) = ''Hello''"
proof -
  have t: "map_of (globalTranslations sample_store) (globalLang sample_store) = Some sample_tree"
    by (simp add: sample_store_def)
  have p: "path_value sample_tree (split_dot ''welcome.title'') = Some (JStr ''Hello'')"
    by (simp add: sample_tree_def)
  show ?thesis using resolve_string_leaf [OF t p, of sample_host] by simp
qed

text \<open>
  C1 as stated fails at an empty stored string: the key \<^verbatim>\<open>blank\<close> of the sample store
  reaches the leaf \<^verbatim>\<open>""\<close>, and the result is not the empty string.
\<close>

theorem resolve_empty_leaf_counterexample:
  "path_value sample_tree (split_dot ''blank'') = Some (JStr []) \<and>
   fst (internalT sample_host ''blank'' [] sample_store) \<noteq> []"
proof -
  have t: "map_of (globalTranslations sample_store) (globalLang sample_store) = Some sample_tree"
    by (simp add: sample_store_def)
  have p: "path_value sample_tree (split_dot ''blank'') = Some (JStr [])"
    by (simp add: sample_tree_def)
  from internalT_leaf [OF t p, of sample_host "[]"] p show ?thesis
    by (simp add: todo_fallback_def)
qed

text \<open>
  C3: when the key path reaches a branch at its full length, \<open>internalT\<close> writes one
  warning and returns exactly \<^verbatim>\<open>[Object: <key>]\<close>, in every host.  The result of
  \<open>internalT\<close> is a string on every input: each \<^verbatim>\<open>return\<close> of the source is a template
  literal, the result of \<^verbatim>\<open>replace\<close> or of \<^verbatim>\<open>toString()\<close>, so the structure itself is never
  returned.
\<close>

theorem resolve_branch:
  assumes "map_of (globalTranslations s) (globalLang s) = Some tree"
    and "path_value tree (split_dot key) = Some v"
    and "is_branch v"
  shows "fst (internalT h key vars s) = ''[Object: '' @ key @ '']'' \<and>
         fst (snd (internalT h key vars s)) = [object_warning key]"
  using internalT_own_path [OF assms(1,2), of h] assms(3)
  by (cases v) (simp_all add: internalT_def object_fallback_def)

text \<open>The theorem at the branch \<^verbatim>\<open>welcome\<close> of the sample store.\<close>

theorem resolve_branch_witness:
  "fst (internalT sample_host ''welcome'' [] sample_store) = ''[Object: welcome]'' \<and>
   fst (snd (internalT sample_host ''welcome'' [] sample_store)) = [object_warning ''welcome'']"
proof -
  have t: "map_of (globalTranslations sample_store) (globalLang sample_store) = Some sample_tree"
    by (simp add: sample_store_def)
  have p: "path_value sample_tree (split_dot ''welcome'') = Some (JObj [(''title'', JStr ''Hello'')])"
    by (simp add: sample_tree_def)
  have b: "is_branch (JObj [(''title'', JStr ''Hello'')])" by simp
  show ?thesis using resolve_branch [OF t p b, of sample_host "[]"] by simp
qed

subsection \<open>Absent keys\<close>

text \<open>
  A path the tree does not have is a miss as long as none of its segments is an
  inherited name.
\<close>

lemma not_inherited:
  "\<not> inherited_name h k \<Longrightarrow> inherited h t k = None"
  by (cases t) (auto simp: inherited_name_def function_member_def)

lemma walk_absent_own:
  assumes "path_value t ks = None" and "\<forall>k \<in> set ks. \<not> inherited_name h k"
  shows "walk h (Some (Data t)) ks = None"
  using assms
proof (induction ks arbitrary: t)
  case Nil
  then show ?case by simp
next
  case (Cons k ks)
  from Cons.prems(2) have k: "inherited h t k = None" and r: "\<forall>k \<in> set ks. \<not> inherited_name h k"
    by (simp_all add: not_inherited)
  show ?case
  proof (cases "is_branch t")
    case False
    then have "\<not> (val_truthy (Data t) \<and> val_typeof (Data t) = ''object'')"
      by (cases t) auto
    then show ?thesis by auto
  next
    case True
    show ?thesis
    proof (cases "own_prop t k")
      case None
      with k show ?thesis by (simp add: has_prop_def)
    next
      case (Some x)
      with True Cons.prems(1) have "path_value x ks = None" by simp
      then have "walk h (Some (Data x)) ks = None" using r by (rule Cons.IH)
      with Some show ?thesis by simp
    qed
  qed
qed

lemma resolve_absent_own_key:
  assumes "map_of (globalTranslations s) (globalLang s) = Some tree"
    and "path_value tree (split_dot key) = None"
    and "\<forall>k \<in> set (split_dot key). \<not> inherited_name h k"
  shows "fst (internalT h key vars s) = ''TODO: Translate '' @ [CHR 0x22] @ key @ [CHR 0x22] \<and>
         key \<in> globalKeys (snd (snd (internalT h key vars s)))"
proof -
  from assms(1) have "get_prop h (Data (JObj (globalTranslations s))) (globalLang s) =
      Some (Data tree)" by (rule store_lookup)
  with walk_absent_own [OF assms(2,3)] show ?thesis
    by (simp add: internalT_def todo_fallback_def quoted_def)
qed

text \<open>
  C2 does not hold of \<open>internalT\<close>.  The key \<^verbatim>\<open>constructor\<close> is absent from the tree of the
  sample store, whose only top-level keys are \<^verbatim>\<open>welcome\<close>, \<^verbatim>\<open>greeting\<close> and \<^verbatim>\<open>blank\<close>; the
  test \<^verbatim>\<open>k in value\<close> of the loop finds the member every object inherits under that name,
  and the call returns the text of that function, not the fallback.  The key is
  registered all the same.
\<close>

theorem resolve_inherited_key:
  "path_value sample_tree (split_dot ''constructor'') = None \<and>
   fst (internalT sample_host ''constructor'' [] sample_store) =
     ''function Object() { [native code] }'' \<and>
   ''constructor'' \<in> globalKeys (snd (snd (internalT sample_host ''constructor'' [] sample_store)))"
  by (simp add: sample_tree_def sample_store_def sample_host_def native_def internalT_def
      has_prop_def function_member_def)

subsection \<open>Interpolation\<close>

lemma match_placeholder_text:
  assumes "match_placeholder s = Some (name, rest)"
  shows "s = ''{{'' @ name @ ''}}'' @ rest"
proof -
  from assms obtain c1 c2 r where s: "s = c1 # c2 # r"
    by (cases s rule: list.exhaust; cases "tl s")
       (auto simp: match_placeholder_def)
  from assms s have b: "c1 = CHR ''{''" "c2 = CHR ''{''"
    and n: "name = takeWhile is_word_char r"
    and d: "dropWhile is_word_char r = CHR ''}'' # CHR ''}'' # rest"
    by (auto simp: match_placeholder_def Let_def split: if_splits list.splits)
  have "r = takeWhile is_word_char r @ dropWhile is_word_char r" by simp
  with n d have "r = name @ CHR ''}'' # CHR ''}'' # rest" by simp
  with s b show ?thesis by simp
qed

text \<open>
  The matcher finds a placeholder at the head of a text exactly when the text starts
  with two opening braces, a non-empty run of word characters and two closing braces.
\<close>

lemma match_placeholder_iff:
  "match_placeholder s = Some (name, rest) \<longleftrightarrow>
   s = ''{{'' @ name @ ''}}'' @ rest \<and> name \<noteq> [] \<and> (\<forall>c \<in> set name. is_word_char c)"
proof
  assume m: "match_placeholder s = Some (name, rest)"
  then obtain c1 c2 r where s: "s = c1 # c2 # r"
    by (cases s rule: list.exhaust; cases "tl s")
       (auto simp: match_placeholder_def)
  from m s have "name = takeWhile is_word_char r" and "name \<noteq> []"
    by (auto simp: match_placeholder_def Let_def split: if_splits list.splits)
  then have "name \<noteq> [] \<and> (\<forall>c \<in> set name. is_word_char c)"
    by (auto dest: set_takeWhileD)
  with match_placeholder_text [OF m] show
    "s = ''{{'' @ name @ ''}}'' @ rest \<and> name \<noteq> [] \<and> (\<forall>c \<in> set name. is_word_char c)"
    by simp
next
  assume a: "s = ''{{'' @ name @ ''}}'' @ rest \<and> name \<noteq> [] \<and> (\<forall>c \<in> set name. is_word_char c)"
  have b: "\<not> is_word_char (CHR ''}'')" by (simp add: is_word_char_def)
  from a have t: "takeWhile is_word_char (name @ CHR ''}'' # CHR ''}'' # rest) = name"
    using b by (simp add: takeWhile_append2)
  from a have d: "dropWhile is_word_char (name @ CHR ''}'' # CHR ''}'' # rest) =
      CHR ''}'' # CHR ''}'' # rest"
    using b by (simp add: dropWhile_append2)
  from a t d show "match_placeholder s = Some (name, rest)"
    by (simp add: match_placeholder_def)
qed

lemma pieces_text: "concat (map piece_text (pieces s)) = s"
proof (induction s rule: pieces.induct)
  case 1
  show ?case by simp
next
  case (2 c cs)
  show ?case
  proof (cases "match_placeholder (c # cs)")
    case None
    with 2 show ?thesis by simp
  next
    case (Some p)
    obtain name rest where p: "p = (name, rest)" by (cases p)
    from Some p have "c # cs = ''{{'' @ name @ ''}}'' @ rest"
      using match_placeholder_text [of "c # cs" name rest] by simp
    moreover have "concat (map piece_text (pieces rest)) = rest"
      by (rule 2(2) [OF Some p [symmetric]])
    ultimately show ?thesis using Some p by simp
  qed
qed

text \<open>The replacement, piece by piece, for any callback.\<close>

lemma replace_placeholders_pieces:
  "replace_placeholders f s =
     concat (map (\<lambda>p. case p of Text c \<Rightarrow> [c] | Placeholder n \<Rightarrow> f (piece_text p) n) (pieces s))"
proof (induction s rule: pieces.induct)
  case 1
  show ?case by simp
next
  case (2 c cs)
  show ?case
  proof (cases "match_placeholder (c # cs)")
    case None
    with 2 show ?thesis by simp
  next
    case (Some p)
    obtain name rest where p: "p = (name, rest)" by (cases p)
    have "replace_placeholders f rest =
            concat (map (\<lambda>p. case p of Text c \<Rightarrow> [c] | Placeholder n \<Rightarrow> f (piece_text p) n)
                      (pieces rest))"
      by (rule 2(2) [OF Some p [symmetric]])
    with Some p show ?thesis by simp
  qed
qed

lemma placeholder_in_names:
  "Placeholder n \<in> set (pieces s) \<Longrightarrow> n \<in> set (placeholder_names s)"
  by (force simp: placeholder_names_def)

lemma substitute_piece:
  assumes "map_of vars n = None \<longrightarrow> n \<noteq> ''__proto__'' \<and> map_of (object_members h) n = None"
  shows "substitute h vars (piece_text (Placeholder n)) n = interpolated_piece vars (Placeholder n)"
proof (cases "map_of vars n")
  case None
  with assms show ?thesis by (simp add: substitute_def)
next
  case (Some x)
  then show ?thesis by (simp add: substitute_def Let_def)
qed

lemma interpolate_pieces:
  assumes "\<forall>n \<in> set (placeholder_names s).
             map_of vars n = None \<longrightarrow> n \<noteq> ''__proto__'' \<and> map_of (object_members h) n = None"
  shows "replace_placeholders (substitute h vars) s =
           concat (map (interpolated_piece vars) (pieces s))"
proof -
  have "(case p of Text c \<Rightarrow> [c] | Placeholder n \<Rightarrow> substitute h vars (piece_text p) n) =
          interpolated_piece vars p" if "p \<in> set (pieces s)" for p
  proof (cases p)
    case (Text c)
    then show ?thesis by simp
  next
    case (Placeholder n)
    with that have "n \<in> set (placeholder_names s)" by (simp add: placeholder_in_names)
    with assms have "map_of vars n = None \<longrightarrow>
        n \<noteq> ''__proto__'' \<and> map_of (object_members h) n = None" by blast
    then show ?thesis unfolding Placeholder piece.case by (rule substitute_piece)
  qed
  then have "map (\<lambda>p. case p of Text c \<Rightarrow> [c]
                       | Placeholder n \<Rightarrow> substitute h vars (piece_text p) n) (pieces s) =
             map (interpolated_piece vars) (pieces s)"
    by simp
  then show ?thesis by (simp only: replace_placeholders_pieces)
qed

lemma unmatched_pieces:
  assumes "\<forall>n \<in> set (placeholder_names s). map_of vars n = None"
  shows "map (interpolated_piece vars) (pieces s) = map piece_text (pieces s)"
proof -
  have "interpolated_piece vars p = piece_text p" if "p \<in> set (pieces s)" for p
  proof (cases p)
    case (Text c)
    then show ?thesis by simp
  next
    case (Placeholder n)
    with that have "n \<in> set (placeholder_names s)" by (simp add: placeholder_in_names)
    with assms have "map_of vars n = None" by blast
    with Placeholder show ?thesis by simp
  qed
  then show ?thesis by simp
qed

text \<open>
  C4, as the code has it: take a leaf string and a non-empty variable map, in any host,
  such that no placeholder of the string names a member inherited from
  \<^verbatim>\<open>Object.prototype\<close> without being a key of the map.  Then the pieces of the string spell
  the string itself, and the result of \<open>internalT\<close> is the pieces in order, where an
  occurrence of \<^verbatim>\<open>{{name}}\<close> (the name a non-empty run of letters, digits and underscores)
  whose name is a key of the map with an entry that converts to a non-empty string is
  replaced by that string, and every other piece, the occurrences whose name is not a key
  among them, is left as it is, braces included.
\<close>

theorem interpolation_by_pieces:
  assumes "map_of (globalTranslations s) (globalLang s) = Some tree"
    and "path_value tree (split_dot key) = Some (JStr str)"
    and "vars \<noteq> []"
    and "\<forall>n \<in> set (placeholder_names str).
           map_of vars n = None \<longrightarrow> n \<noteq> ''__proto__'' \<and> map_of (object_members h) n = None"
  shows "concat (map piece_text (pieces str)) = str \<and>
         fst (internalT h key vars s) = concat (map (interpolated_piece vars) (pieces str))"
  using assms(3) interpolate_pieces [OF assms(4)]
  by (simp add: internalT_leaf [OF assms(1,2)] pieces_text)

text \<open>The theorem at the scenario of the specification: \<^verbatim>\<open>Hi, {{name}}!\<close> with the name Sam.\<close>

theorem interpolation_by_pieces_witness:
  "concat (map piece_text (pieces ''Hi, {{name}}!'')) = ''Hi, {{name}}!'' \<and>
   fst (internalT sample_host ''greeting'' [(''name'', VStr ''Sam'')] sample_store) = ''Hi, Sam!''"
proof -
  have t: "map_of (globalTranslations sample_store) (globalLang sample_store) = Some sample_tree"
    by (simp add: sample_store_def)
  have p: "path_value sample_tree (split_dot ''greeting'') = Some (JStr ''Hi, {{name}}!'')"
    by (simp add: sample_tree_def)
  have v: "[(''name'', VStr ''Sam'')] \<noteq> []" by simp
  have n: "\<forall>n \<in> set (placeholder_names ''Hi, {{name}}!'').
             map_of [(''name'', VStr ''Sam'')] n = None \<longrightarrow>
             n \<noteq> ''__proto__'' \<and> map_of (object_members sample_host) n = None"
    by (simp add: placeholder_names_def match_placeholder_def is_word_char_def)
  have e: "concat (map (interpolated_piece [(''name'', VStr ''Sam'')]) (pieces ''Hi, {{name}}!'')) =
             ''Hi, Sam!''"
    by (simp add: match_placeholder_def is_word_char_def)
  show ?thesis using interpolation_by_pieces [OF t p v n] e by simp
qed

text \<open>
  C4 as stated fails for an entry that converts to the empty string: the name is a key
  of the map, and the occurrence is not replaced by the entry
  (\<^verbatim>\<open>vars[varName]?.toString() || match\<close>).
\<close>

theorem interpolation_empty_entry_counterexample:
  "map_of [(''name'', VStr [])] ''name'' = Some (VStr []) \<and>
   fst (internalT sample_host ''greeting'' [(''name'', VStr [])] sample_store) \<noteq>
     ''Hi, '' @ var_to_string (VStr []) @ ''!''"
proof -
  have t: "map_of (globalTranslations sample_store) (globalLang sample_store) = Some sample_tree"
    by (simp add: sample_store_def)
  have p: "path_value sample_tree (split_dot ''greeting'') = Some (JStr ''Hi, {{name}}!'')"
    by (simp add: sample_tree_def)
  from internalT_leaf [OF t p, of sample_host "[(''name'', VStr [])]"] show ?thesis
    by (simp add: match_placeholder_def is_word_char_def substitute_def)
qed

text \<open>
  On a non-empty leaf string, the call with no variables and the call with a non-empty
  map give the same result, warnings and store when no placeholder of the string names a
  key of the map or an inherited member, and the result is the string itself.
\<close>

lemma empty_vars_as_noop:
  assumes "map_of (globalTranslations s) (globalLang s) = Some tree"
    and "path_value tree (split_dot key) = Some (JStr str)"
    and "str \<noteq> []"
    and "vars \<noteq> []"
    and "\<forall>n \<in> set (placeholder_names str).
           map_of vars n = None \<and> n \<noteq> ''__proto__'' \<and> map_of (object_members h) n = None"
  shows "internalT h key [] s = internalT h key vars s \<and> fst (internalT h key [] s) = str"
proof -
  from assms(5) have a: "\<forall>n \<in> set (placeholder_names str).
      map_of vars n = None \<longrightarrow> n \<noteq> ''__proto__'' \<and> map_of (object_members h) n = None"
    and b: "\<forall>n \<in> set (placeholder_names str). map_of vars n = None"
    by blast+
  have "replace_placeholders (substitute h vars) str = str"
    by (simp only: interpolate_pieces [OF a] unmatched_pieces [OF b] pieces_text)
  with assms(3,4) show ?thesis
    by (simp add: internalT_leaf [OF assms(1,2)])
qed

text \<open>
  C5 does not hold of \<open>internalT\<close>.  The key \<^verbatim>\<open>blank\<close> of the sample store reaches the empty
  leaf string, which has no placeholder, so that every map is one that matches nothing.
  With no variables the last line of \<^verbatim>\<open>internalT\<close> returns the fallback; with the map
  \<^verbatim>\<open>{user: 'Sam'}\<close> the interpolation path returns the empty string.
\<close>

theorem empty_leaf_paths_differ:
  "path_value sample_tree (split_dot ''blank'') = Some (JStr []) \<and>
   placeholder_names [] = [] \<and>
   fst (internalT sample_host ''blank'' [] sample_store) =
     ''TODO: Translate '' @ [CHR 0x22] @ ''blank'' @ [CHR 0x22] \<and>
   fst (internalT sample_host ''blank'' [(''user'', VStr ''Sam'')] sample_store) = []"
proof -
  have t: "map_of (globalTranslations sample_store) (globalLang sample_store) = Some sample_tree"
    by (simp add: sample_store_def)
  have p: "path_value sample_tree (split_dot ''blank'') = Some (JStr [])"
    by (simp add: sample_tree_def)
  from internalT_leaf [OF t p, of sample_host "[]"]
    internalT_leaf [OF t p, of sample_host "[(''user'', VStr ''Sam'')]"] p
  show ?thesis
    by (simp add: todo_fallback_def quoted_def placeholder_names_def)
qed

text \<open>
  The same two calls differ on a leaf that names an inherited member: the text of the
  function stands in the result with variables, the placeholder in the result without.
\<close>

lemma inherited_placeholder_replaced:
  "fst (internalT sample_host ''c'' [(''user'', VStr ''Sam'')]
          (sample_store\<lparr>globalTranslations := [(''en'', JObj [(''c'', JStr ''{{constructor}}'')])]\<rparr>)) =
     ''function Object() { [native code] }'' \<and>
   fst (internalT sample_host ''c'' []
          (sample_store\<lparr>globalTranslations := [(''en'', JObj [(''c'', JStr ''{{constructor}}'')])]\<rparr>)) =
     ''{{constructor}}''"
  by (simp add: sample_store_def sample_host_def native_def internalT_def has_prop_def
      match_placeholder_def is_word_char_def substitute_def)

subsection \<open>The active language\<close>

lemma split_dot_nonempty: "split_dot key \<noteq> []"
  by (induction key) (auto split: list.splits)

lemma setCurrentLang_assigns: "globalLang (snd (setCurrentLang enableUI lang s)) = lang"
  by (simp add: setCurrentLang_def Let_def split: sum.splits)

text \<open>
  In a store with no tree for its active language, every key gives the fallback, unless
  the active language is \<^verbatim>\<open>__proto__\<close>: under any other name the lookup gives
  \<^verbatim>\<open>undefined\<close> or a function, and the loop descends into neither.
\<close>

lemma resolve_unknown_own_language:
  assumes "map_of (globalTranslations s) (globalLang s) = None"
    and "globalLang s \<noteq> ''__proto__''"
  shows "fst (internalT h key vars s) = ''TODO: Translate '' @ [CHR 0x22] @ key @ [CHR 0x22]"
proof -
  obtain k ks where k: "split_dot key = k # ks"
    using split_dot_nonempty [of key] by (cases "split_dot key") auto
  from assms have "get_prop h (Data (JObj (globalTranslations s))) (globalLang s) =
      function_member (object_members h) (globalLang s)" by simp
  then have "walk h (get_prop h (Data (JObj (globalTranslations s))) (globalLang s))
      (split_dot key) = None"
    by (cases "map_of (object_members h) (globalLang s)") (simp_all add: k function_member_def)
  then show ?thesis by (simp add: internalT_def todo_fallback_def quoted_def)
qed

text \<open>
  C10 does not hold of \<open>internalT\<close>.  \<open>setCurrentLang\<close> takes \<^verbatim>\<open>__proto__\<close> as it takes any
  string; the sample store has no tree of that name, before or after; and the lookup
  \<^verbatim>\<open>globalTranslations[globalLang]\<close> answers with \<^verbatim>\<open>Object.prototype\<close>, in which the key
  \<^verbatim>\<open>toString\<close> finds a function: the call returns its text, not the fallback.
\<close>

theorem resolve_proto_language:
  "fst (setCurrentLang True ''__proto__'' sample_store) = None \<and>
   globalLang (snd (setCurrentLang True ''__proto__'' sample_store)) = ''__proto__'' \<and>
   map_of (globalTranslations (snd (setCurrentLang True ''__proto__'' sample_store)))
     ''__proto__'' = None \<and>
   fst (internalT sample_host ''toString'' [] (snd (setCurrentLang True ''__proto__'' sample_store))) =
     ''function toString() { [native code] }''"
  by (simp add: setCurrentLang_def sample_store_def sample_storage_def sample_tree_def
      obj_keys_def sample_host_def native_def internalT_def has_prop_def function_member_def)

section \<open>Properties of reconciliation\<close>

subsection \<open>Assignment and spread\<close>

lemma obj_set_map_of: "map_of (obj_set k v g) = (map_of g)(k \<mapsto> v)"
  by (induction g) (auto simp: fun_eq_iff)

lemma obj_set_keys:
  "map fst (obj_set k v g) = (if k \<in> set (map fst g) then map fst g else map fst g @ [k])"
  by (induction g) (auto simp: rev_image_eqI)

lemma obj_set_distinct: "distinct (map fst g) \<Longrightarrow> distinct (map fst (obj_set k v g))"
  by (simp add: obj_set_keys)

lemma obj_set_same: "map_of g k = Some v \<Longrightarrow> obj_set k v g = g"
  by (induction g) (auto split: if_splits)

lemma obj_set_append_notin:
  "k \<notin> set (map fst xs) \<Longrightarrow> obj_set k v (xs @ ys) = xs @ obj_set k v ys"
  by (induction xs) auto

lemma obj_assign_Nil: "obj_assign [] t = t"
  by (simp add: obj_assign_def)

lemma obj_assign_Cons: "obj_assign ((k, v) # src) t = obj_assign src (obj_set k v t)"
  by (simp add: obj_assign_def)

lemma obj_assign_distinct:
  "distinct (map fst t) \<Longrightarrow> distinct (map fst (obj_assign src t))"
proof (induction src arbitrary: t)
  case Nil
  then show ?case by (simp add: obj_assign_Nil)
next
  case (Cons p src)
  obtain k v where p: "p = (k, v)" by (cases p)
  from Cons.prems have "distinct (map fst (obj_set k v t))" by (rule obj_set_distinct)
  then show ?case unfolding p obj_assign_Cons by (rule Cons.IH)
qed

lemma obj_assign_map_of:
  "distinct (map fst src) \<Longrightarrow>
   map_of (obj_assign src t) k = (case map_of src k of Some v \<Rightarrow> Some v | None \<Rightarrow> map_of t k)"
proof (induction src arbitrary: t)
  case Nil
  show ?case by (simp add: obj_assign_Nil)
next
  case (Cons p src)
  obtain a b where p: "p = (a, b)" by (cases p)
  from Cons.prems p have d: "distinct (map fst src)" and a: "a \<notin> fst ` set src" by auto
  from a have n: "map_of src a = None" by (simp add: map_of_eq_None_iff)
  have "map_of (obj_assign (p # src) t) k =
          (case map_of src k of Some v \<Rightarrow> Some v | None \<Rightarrow> map_of (obj_set a b t) k)"
    unfolding p obj_assign_Cons by (rule Cons.IH [OF d])
  also have "\<dots> = (case map_of (p # src) k of Some v \<Rightarrow> Some v | None \<Rightarrow> map_of t k)"
    using n by (simp add: p obj_set_map_of split: option.splits)
  finally show ?case .
qed

lemma spread_map_of:
  assumes "distinct (map fst (props a))" and "distinct (map fst (props b))"
  shows "map_of (spread a b) k =
           (case map_of (props b) k of Some v \<Rightarrow> Some v | None \<Rightarrow> map_of (props a) k)"
  using assms by (simp add: spread_def obj_assign_map_of split: option.splits)

subsection \<open>The merge of one load\<close>

lemma load_language_map_of:
  "map_of (load_language enableUI fetch l g) lang =
     (if l = lang then
        (case fetch lang of
           None \<Rightarrow> map_of g lang
         | Some base \<Rightarrow>
             Some (if enableUI then JObj (spread (Some base) (map_of g lang)) else base))
      else map_of g lang)"
  by (simp add: load_language_def obj_set_map_of split: option.splits)

lemma fold_load_language_other:
  "lang \<notin> set ls \<Longrightarrow> map_of (fold (load_language enableUI fetch) ls g) lang = map_of g lang"
  by (induction ls arbitrary: g) (auto simp: load_language_map_of)

lemma fold_load_language_once:
  assumes "distinct ls" and "lang \<in> set ls" and "fetch lang = Some base"
  shows "map_of (fold (load_language enableUI fetch) ls g) lang =
           Some (if enableUI then JObj (spread (Some base) (map_of g lang)) else base)"
  using assms
proof (induction ls arbitrary: g)
  case Nil
  then show ?case by simp
next
  case (Cons l ls)
  show ?case
  proof (cases "l = lang")
    case True
    with Cons.prems have "lang \<notin> set ls" by simp
    then show ?thesis
      using True Cons.prems(3) by (simp add: fold_load_language_other load_language_map_of)
  next
    case False
    with Cons.prems have dl: "distinct ls" and ml: "lang \<in> set ls" by auto
    have "map_of (fold (load_language enableUI fetch) ls
        (load_language enableUI fetch l g)) lang =
      Some (if enableUI
            then JObj (spread (Some base) (map_of (load_language enableUI fetch l g) lang))
            else base)"
      using dl ml Cons.prems(3) by (rule Cons.IH)
    with False show ?thesis
      by (simp add: load_language_map_of)
  qed
qed

text \<open>
  C6: in override-enabled mode, for a language of the list whose fetch succeeds, the tree
  of the language after \<open>loadProductionTranslations\<close> is \<^verbatim>\<open>{ ...base, ...override }\<close>, where
  the override is the tree the store held for the language before (at startup, the one
  read from the persisted overrides).  At every top-level key the override's value stands
  whole when the override has the key, and the base's value stands otherwise: nothing
  below the top level is merged.  Objects have each property name once.
\<close>

theorem reconcile_shallow_merge:
  assumes "lang \<in> set languagesToTry"
    and "fetch lang = Some base"
    and "distinct (map fst (props (Some base)))"
    and "distinct (map fst (props (map_of (globalTranslations s) lang)))"
  shows "map_of (globalTranslations (loadProductionTranslations True fetch s)) lang =
           Some (JObj (spread (Some base) (map_of (globalTranslations s) lang))) \<and>
         (\<forall>k. map_of (spread (Some base) (map_of (globalTranslations s) lang)) k =
               (case map_of (props (map_of (globalTranslations s) lang)) k of
                  Some v \<Rightarrow> Some v
                | None \<Rightarrow> map_of (props (Some base)) k))"
proof -
  have "distinct languagesToTry" by (simp add: languagesToTry_def)
  with assms(1,2)
  have "map_of (globalTranslations (loadProductionTranslations True fetch s)) lang =
           Some (JObj (spread (Some base) (map_of (globalTranslations s) lang)))"
    by (simp add: loadProductionTranslations_def
        fold_load_language_once [of languagesToTry lang fetch base True])
  moreover have "map_of (spread (Some base) (map_of (globalTranslations s) lang)) k =
               (case map_of (props (map_of (globalTranslations s) lang)) k of
                  Some v \<Rightarrow> Some v
                | None \<Rightarrow> map_of (props (Some base)) k)" for k
    by (rule spread_map_of [OF assms(3,4)])
  ultimately show ?thesis by blast
qed

text \<open>
  The theorem at the English base and override: the override's \<^verbatim>\<open>menu\<close> stands whole (the
  base's \<^verbatim>\<open>menu.close\<close> is gone), the override's \<^verbatim>\<open>hello\<close> wins, the base's \<^verbatim>\<open>bye\<close> survives.
\<close>

theorem reconcile_shallow_merge_witness:
  "map_of (globalTranslations (loadProductionTranslations True english_only override_store)) ''en'' =
     Some (JObj (spread (Some english_base) (Some english_override))) \<and>
   map_of (spread (Some english_base) (Some english_override)) ''menu'' =
     Some (JObj [(''open'', JStr ''Open it'')]) \<and>
   map_of (spread (Some english_base) (Some english_override)) ''hello'' = Some (JStr ''Hello'') \<and>
   map_of (spread (Some english_base) (Some english_override)) ''bye'' = Some (JStr ''Bye'')"
proof -
  have l: "''en'' \<in> set languagesToTry" by (simp add: languagesToTry_def)
  have f: "english_only ''en'' = Some english_base" by (simp add: english_only_def)
  have o: "map_of (globalTranslations override_store) ''en'' = Some english_override"
    by (simp add: override_store_def)
  have b: "distinct (map fst (props (Some english_base)))"
    by (simp add: english_base_def)
  have d: "distinct (map fst (props (map_of (globalTranslations override_store) ''en'')))"
    by (simp add: o english_override_def)
  from reconcile_shallow_merge [of "''en''" english_only english_base override_store] l f b d
  have m: "map_of (globalTranslations
             (loadProductionTranslations True english_only override_store)) ''en'' =
           Some (JObj (spread (Some english_base) (Some english_override)))"
    and a: "\<And>k. map_of (spread (Some english_base) (Some english_override)) k =
              (case map_of (own_props english_override) k of
                 Some v \<Rightarrow> Some v
               | None \<Rightarrow> map_of (own_props english_base) k)"
    by (simp_all add: o split: option.splits)
  show ?thesis
    by (simp add: m a) (simp add: english_override_def english_base_def)
qed

subsection \<open>Idempotence\<close>

lemma obj_set_absent: "k \<notin> fst ` set g \<Longrightarrow> obj_set k v g = g @ [(k, v)]"
  by (induction g) auto

lemma obj_assign_keys_extend: "\<exists>ks. map fst (obj_assign src t) = map fst t @ ks"
proof (induction src arbitrary: t)
  case Nil
  show ?case by (simp add: obj_assign_Nil)
next
  case (Cons p src)
  obtain k v where p: "p = (k, v)" by (cases p)
  from Cons.IH [of "obj_set k v t"] obtain ks
    where "map fst (obj_assign src (obj_set k v t)) = map fst (obj_set k v t) @ ks" ..
  then show ?case
    by (cases "k \<in> set (map fst t)") (simp_all add: p obj_assign_Cons obj_set_keys)
qed

lemma obj_assign_prefix:
  assumes "distinct (map fst (Q @ M))" and "map fst M = map fst P @ ks"
  shows "obj_assign M (Q @ P) = Q @ M"
  using assms
proof (induction M arbitrary: P Q ks)
  case Nil
  then show ?case by (simp add: obj_assign_Nil)
next
  case (Cons p M)
  obtain k v where p: "p = (k, v)" by (cases p)
  from Cons.prems(1) p have kQ: "k \<notin> set (map fst Q)"
    and d: "distinct (map fst ((Q @ [(k, v)]) @ M))" by auto
  show ?case
  proof (cases P)
    case Nil
    have "obj_set k v (Q @ P) = (Q @ [(k, v)]) @ []"
      using kQ Nil by (simp add: obj_set_absent)
    moreover have "obj_assign M ((Q @ [(k, v)]) @ []) = (Q @ [(k, v)]) @ M"
      by (rule Cons.IH [OF d, of "[]" "map fst M"]) simp
    ultimately show ?thesis by (simp add: p obj_assign_Cons)
  next
    case (Cons q P')
    obtain k' w where q: "q = (k', w)" by (cases q)
    from Cons.prems(2) p Cons q have k: "k' = k" and r: "map fst M = map fst P' @ ks" by auto
    have "obj_set k v (Q @ P) = (Q @ [(k, v)]) @ P'"
      using kQ Cons q k by (simp add: obj_set_append_notin)
    moreover have "obj_assign M ((Q @ [(k, v)]) @ P') = (Q @ [(k, v)]) @ M"
      by (rule Cons.IH [OF d r])
    ultimately show ?thesis by (simp add: p obj_assign_Cons)
  qed
qed

lemma spread_idem: "spread a (Some (JObj (spread a b))) = spread a b"
proof -
  let ?P = "obj_assign (props a) []"
  let ?M = "obj_assign (props b) ?P"
  have "distinct (map fst ?P)" by (rule obj_assign_distinct) simp
  then have d: "distinct (map fst ([] @ ?M))" by (simp add: obj_assign_distinct)
  obtain ks where k: "map fst ?M = map fst ?P @ ks"
    using obj_assign_keys_extend by blast
  have "obj_assign ?M ([] @ ?P) = [] @ ?M" by (rule obj_assign_prefix [OF d k])
  then show ?thesis by (simp add: spread_def)
qed

lemma effective_idem:
  "effective enableUI base (Some (effective enableUI base old)) = effective enableUI base old"
  by (simp add: effective_def spread_idem)

lemma spread_empty: "spread a b = [] \<Longrightarrow> spread a None = []"
proof -
  assume e: "spread a b = []"
  obtain ks where "map fst (spread a b) = map fst (obj_assign (props a) []) @ ks"
    unfolding spread_def using obj_assign_keys_extend by blast
  with e have "obj_assign (props a) [] = []" by simp
  then show ?thesis by (simp add: spread_def obj_assign_Nil)
qed

lemma effective_empty:
  "keys_or_empty (Some (effective enableUI base old)) = [] \<Longrightarrow>
   keys_or_empty (Some (effective enableUI base None)) = []"
  by (auto simp: effective_def keys_or_empty_def dest: spread_empty)

lemma load_language_effective:
  "load_language enableUI fetch lang g =
     (case fetch lang of
        None \<Rightarrow> g
      | Some base \<Rightarrow> obj_set lang (effective enableUI base (map_of g lang)) g)"
  by (simp add: load_language_def effective_def split: option.splits)

lemma load_language_step:
  "map_of (load_language enableUI fetch l g) lang =
     (if l = lang then
        (case fetch lang of
           None \<Rightarrow> map_of g lang
         | Some base \<Rightarrow> Some (effective enableUI base (map_of g lang)))
      else map_of g lang)"
  by (simp add: load_language_effective obj_set_map_of split: option.splits)

lemma fold_load_language_map_of:
  "map_of (fold (load_language enableUI fetch) ls g) lang =
     (if lang \<in> set ls then
        (case fetch lang of
           None \<Rightarrow> map_of g lang
         | Some base \<Rightarrow> Some (effective enableUI base (map_of g lang)))
      else map_of g lang)"
proof (induction ls arbitrary: g)
  case Nil
  show ?case by simp
next
  case (Cons l ls)
  show ?case
    by (simp add: Cons.IH load_language_step effective_idem split: option.splits)
qed


lemma fold_obj_delete: "fold obj_delete ks g = sweep ks g"
proof (induction ks arbitrary: g)
  case Nil
  show ?case by (simp add: sweep_def)
next
  case (Cons k ks)
  have "sweep ks (obj_delete k g) = sweep (k # ks) g"
    by (auto simp: sweep_def obj_delete_def intro: filter_cong)
  with Cons.IH [of "obj_delete k g"] show ?case by simp
qed

lemma languagesToRemove_dead:
  "filter (\<lambda>lang. lang \<notin> set (filter (\<lambda>lang. length (keys_or_empty (map_of g lang)) > 0)
                                 (obj_keys g))) (obj_keys g) =
   dead_languages g"
  by (auto simp: dead_languages_def obj_keys_def intro: filter_cong)

lemma sweep_Nil: "sweep [] g = g"
  by (simp add: sweep_def)

lemma initializeTranslations_normal:
  "initializeTranslations enableUI fetch s =
     (let G = fold (load_language enableUI fetch) languagesToTry (globalTranslations s);
          d = dead_languages G
      in s\<lparr>globalTranslations := sweep d G,
            translationMetadata := sweep d (translationMetadata s),
            localStorage :=
              (if d \<noteq> [] \<and> enableUI then
                 (localStorage s)
                   \<lparr>magic_translations := Document (sweep d G),
                    magic_translation_metadata := Document (sweep d (translationMetadata s))\<rparr>
               else localStorage s)\<rparr>)"
proof -
  let ?G = "fold (load_language enableUI fetch) languagesToTry (globalTranslations s)"
  have sel: "globalTranslations (s\<lparr>globalTranslations := ?G\<rparr>) = ?G" by simp
  show ?thesis
    unfolding initializeTranslations_def loadProductionTranslations_def Let_def sel
      languagesToRemove_dead fold_obj_delete
    by (simp add: sweep_Nil)
qed

lemma map_of_sweep: "map_of (sweep d g) k = (if k \<in> set d then None else map_of g k)"
  by (induction g) (auto simp: sweep_def)

lemma keys_sweep: "fst ` set (sweep d g) = fst ` set g - set d"
  by (auto simp: sweep_def rev_image_eqI)

lemma sweep_sweep: "set d' \<subseteq> set d \<Longrightarrow> sweep d' (sweep d m) = sweep d m"
  by (auto simp: sweep_def intro: filter_cong)

lemma swept_live:
  assumes "k \<in> fst ` set (sweep (dead_languages G) G)"
  shows "keys_or_empty (map_of (sweep (dead_languages G) G) k) \<noteq> []"
proof -
  from assms have k: "k \<in> fst ` set G" and n: "k \<notin> set (dead_languages G)"
    by (auto simp: keys_sweep)
  then have "keys_or_empty (map_of G k) \<noteq> []"
    by (auto simp: dead_languages_def)
  with n show ?thesis by (simp add: map_of_sweep)
qed

lemma swept_stable:
  assumes "L \<in> set ls" and "fetch L = Some base"
    and "G = fold (load_language enableUI fetch) ls g"
  shows "case map_of (sweep (dead_languages G) G) L of
           Some T \<Rightarrow> effective enableUI base (Some T) = T
         | None \<Rightarrow> L \<in> set (dead_languages G) \<and>
                    keys_or_empty (Some (effective enableUI base None)) = []"
proof -
  let ?T = "effective enableUI base (map_of g L)"
  from assms have m: "map_of G L = Some ?T"
    by (simp add: fold_load_language_map_of)
  then have k: "L \<in> fst ` set G"
    by (metis map_of_eq_None_iff option.distinct(1))
  show ?thesis
  proof (cases "keys_or_empty (Some ?T) = []")
    case True
    with m k have "L \<in> set (dead_languages G)" by (simp add: dead_languages_def)
    moreover from True have "keys_or_empty (Some (effective enableUI base None)) = []"
      by (rule effective_empty)
    ultimately show ?thesis by (simp add: map_of_sweep)
  next
    case False
    with m have "L \<notin> set (dead_languages G)" by (simp add: dead_languages_def)
    with m show ?thesis by (simp add: map_of_sweep effective_idem)
  qed
qed

lemma reload_step:
  assumes stable: "\<And>base. fetch L = Some base \<Longrightarrow>
      (case map_of g1 L of
         Some T \<Rightarrow> effective enableUI base (Some T) = T
       | None \<Rightarrow> L \<in> D \<and> keys_or_empty (Some (effective enableUI base None)) = [])"
    and ok: "appended enableUI fetch D g1 e0"
  shows "\<exists>e1. load_language enableUI fetch L (g1 @ e0) = g1 @ e1 \<and>
              appended enableUI fetch D g1 e1"
proof (cases "fetch L")
  case None
  with ok show ?thesis by (auto simp: load_language_effective)
next
  case (Some base)
  note st = stable [OF Some]
  show ?thesis
  proof (cases "map_of g1 L")
    case T: (Some T)
    with st have "effective enableUI base (Some T) = T" by simp
    moreover from T have "map_of (g1 @ e0) L = Some T" by (simp add: map_add_def)
    ultimately have "load_language enableUI fetch L (g1 @ e0) = g1 @ e0"
      using Some by (simp add: load_language_effective obj_set_same)
    with ok show ?thesis by blast
  next
    case N: None
    with st have LD: "L \<in> D"
      and em: "keys_or_empty (Some (effective enableUI base None)) = []" by simp_all
    from N have Lg: "L \<notin> fst ` set g1" by (simp add: map_of_eq_None_iff)
    show ?thesis
    proof (cases "map_of e0 L")
      case t: (Some t)
      then have "(L, t) \<in> set e0" by (rule map_of_SomeD)
      with ok Some have "t = effective enableUI base None"
        by (auto simp: appended_def)
      then have "effective enableUI base (Some t) = t" by (simp add: effective_idem)
      moreover from N t have "map_of (g1 @ e0) L = Some t" by (simp add: map_add_def)
      ultimately have "load_language enableUI fetch L (g1 @ e0) = g1 @ e0"
        using Some by (simp add: load_language_effective obj_set_same)
      with ok show ?thesis by blast
    next
      case None
      with N have a: "L \<notin> fst ` set (g1 @ e0)"
        by (simp add: map_of_eq_None_iff image_Un)
      from N None have "map_of (g1 @ e0) L = None" by (simp add: map_add_def)
      with Some a have "load_language enableUI fetch L (g1 @ e0) =
          g1 @ (e0 @ [(L, effective enableUI base None)])"
        by (simp add: load_language_effective obj_set_absent map_add_def)
      moreover from ok Lg LD em Some
      have "appended enableUI fetch D g1 (e0 @ [(L, effective enableUI base None)])"
        by (auto simp: appended_def)
      ultimately show ?thesis by blast
    qed
  qed
qed

lemma reload_appends:
  assumes stable: "\<And>L base. L \<in> set ls \<Longrightarrow> fetch L = Some base \<Longrightarrow>
      (case map_of g1 L of
         Some T \<Rightarrow> effective enableUI base (Some T) = T
       | None \<Rightarrow> L \<in> D \<and> keys_or_empty (Some (effective enableUI base None)) = [])"
    and ok: "appended enableUI fetch D g1 e0"
  shows "\<exists>e. fold (load_language enableUI fetch) ls (g1 @ e0) = g1 @ e \<and>
             appended enableUI fetch D g1 e"
  using assms
proof (induction ls arbitrary: e0)
  case Nil
  then show ?case by auto
next
  case (Cons L ls)
  have "\<exists>e1. load_language enableUI fetch L (g1 @ e0) = g1 @ e1 \<and>
              appended enableUI fetch D g1 e1"
    by (rule reload_step [OF _ Cons.prems(2)]) (rule Cons.prems(1), simp_all)
  then obtain e1 where l: "load_language enableUI fetch L (g1 @ e0) = g1 @ e1"
    and a: "appended enableUI fetch D g1 e1" by blast
  have "\<exists>e. fold (load_language enableUI fetch) ls (g1 @ e1) = g1 @ e \<and>
             appended enableUI fetch D g1 e"
    by (rule Cons.IH [OF _ a]) (rule Cons.prems(1), simp_all)
  with l show ?case by simp
qed

lemma dead_languages_append:
  assumes live: "\<And>k. k \<in> fst ` set g1 \<Longrightarrow> keys_or_empty (map_of g1 k) \<noteq> []"
    and ok: "appended enableUI fetch D g1 e"
  shows "dead_languages (g1 @ e) = map fst e"
proof -
  have 1: "filter (\<lambda>k. keys_or_empty (map_of (g1 @ e) k) = []) (map fst g1) = []"
  proof -
    have "keys_or_empty (map_of (g1 @ e) k) \<noteq> []" if "k \<in> fst ` set g1" for k
    proof -
      from that obtain v where "map_of g1 k = Some v"
        by (metis map_of_eq_None_iff not_Some_eq)
      then have "map_of (g1 @ e) k = map_of g1 k" by (simp add: map_add_def)
      with live [OF that] show ?thesis by simp
    qed
    then show ?thesis by (auto simp: filter_empty_conv)
  qed
  have 2: "filter (\<lambda>k. keys_or_empty (map_of (g1 @ e) k) = []) (map fst e) = map fst e"
  proof -
    have "keys_or_empty (map_of (g1 @ e) k) = []" if "k \<in> fst ` set e" for k
    proof -
      from that obtain t where t: "map_of e k = Some t"
        by (metis map_of_eq_None_iff not_Some_eq)
      then have m: "(k, t) \<in> set e" by (rule map_of_SomeD)
      with ok have "k \<notin> fst ` set g1" and em: "keys_or_empty (Some t) = []"
        by (auto simp: appended_def)
      then have "map_of g1 k = None" by (simp add: map_of_eq_None_iff)
      with t have "map_of (g1 @ e) k = Some t" by (simp add: map_add_def)
      with em show ?thesis by simp
    qed
    then show ?thesis by (auto simp: filter_id_conv)
  qed
  from 1 2 show ?thesis by (simp add: dead_languages_def)
qed

lemma sweep_append:
  assumes "appended enableUI fetch D g1 e"
  shows "sweep (map fst e) (g1 @ e) = g1"
proof -
  from assms have d: "\<And>k. k \<in> fst ` set e \<Longrightarrow> k \<notin> fst ` set g1"
    by (force simp: appended_def)
  have "filter (\<lambda>(k, v). k \<notin> set (map fst e)) g1 = g1"
    using d by (force simp: filter_id_conv)
  moreover have "filter (\<lambda>(k, v). k \<notin> set (map fst e)) e = []"
    by (force simp: filter_empty_conv)
  ultimately show ?thesis by (simp add: sweep_def)
qed

lemma appended_keys: "appended enableUI fetch D g1 e \<Longrightarrow> set (map fst e) \<subseteq> D"
  by (force simp: appended_def)

lemma initializeTranslations_fixed:
  assumes G': "fold (load_language enableUI fetch) languagesToTry (globalTranslations t) =
               globalTranslations t @ e"
    and d': "dead_languages (globalTranslations t @ e) = map fst e"
    and g2: "sweep (map fst e) (globalTranslations t @ e) = globalTranslations t"
    and m2: "sweep (map fst e) (translationMetadata t) = translationMetadata t"
    and st: "e \<noteq> [] \<Longrightarrow> enableUI \<Longrightarrow>
             magic_translations (localStorage t) = Document (globalTranslations t) \<and>
             magic_translation_metadata (localStorage t) = Document (translationMetadata t)"
  shows "initializeTranslations enableUI fetch t = t"
proof -
  have nf: "initializeTranslations enableUI fetch t =
      t\<lparr>globalTranslations := globalTranslations t,
        translationMetadata := translationMetadata t,
        localStorage :=
          (if map fst e \<noteq> [] \<and> enableUI then
             (localStorage t)
               \<lparr>magic_translations := Document (globalTranslations t),
                magic_translation_metadata := Document (translationMetadata t)\<rparr>
           else localStorage t)\<rparr>"
    unfolding initializeTranslations_normal Let_def G' d' g2 m2 ..
  show ?thesis
  proof (cases "e \<noteq> [] \<and> enableUI")
    case True
    with st have "(localStorage t)
        \<lparr>magic_translations := Document (globalTranslations t),
         magic_translation_metadata := Document (translationMetadata t)\<rparr> = localStorage t"
      by simp
    then show ?thesis unfolding nf by simp
  next
    case False
    then show ?thesis unfolding nf by auto
  qed
qed

text \<open>
  C7: for every store, either mode and every base source, a second reconciliation with
  the same base source leaves the store of the first as it is: translations, metadata,
  persisted overrides, active language and registry.
\<close>

theorem reconcile_idempotent:
  "initializeTranslations enableUI fetch (initializeTranslations enableUI fetch s) =
   initializeTranslations enableUI fetch s"
proof -
  let ?G = "fold (load_language enableUI fetch) languagesToTry (globalTranslations s)"
  let ?d = "dead_languages ?G"
  let ?g1 = "sweep ?d ?G"
  let ?m1 = "sweep ?d (translationMetadata s)"
  let ?s1 = "initializeTranslations enableUI fetch s"
  have g: "globalTranslations ?s1 = ?g1" and m: "translationMetadata ?s1 = ?m1"
    and ls: "localStorage ?s1 =
      (if ?d \<noteq> [] \<and> enableUI then
         (localStorage s)\<lparr>magic_translations := Document ?g1,
                           magic_translation_metadata := Document ?m1\<rparr>
       else localStorage s)"
    by (simp_all add: initializeTranslations_normal Let_def)
  have "appended enableUI fetch (set ?d) ?g1 []" by (simp add: appended_def)
  with swept_stable [of _ languagesToTry fetch _ ?G enableUI "globalTranslations s"]
  have "\<exists>e. fold (load_language enableUI fetch) languagesToTry (?g1 @ []) = ?g1 @ e \<and>
             appended enableUI fetch (set ?d) ?g1 e"
    by (intro reload_appends) simp_all
  then obtain e where G': "fold (load_language enableUI fetch) languagesToTry ?g1 = ?g1 @ e"
    and ok: "appended enableUI fetch (set ?d) ?g1 e" by auto
  have d': "dead_languages (?g1 @ e) = map fst e"
    using swept_live ok by (rule dead_languages_append)
  have sub: "set (map fst e) \<subseteq> set ?d" using ok by (rule appended_keys)
  have g2: "sweep (map fst e) (?g1 @ e) = ?g1" using ok by (rule sweep_append)
  have m2: "sweep (map fst e) ?m1 = ?m1" using sub by (rule sweep_sweep)
  show ?thesis
  proof (rule initializeTranslations_fixed [where e = e])
    show "fold (load_language enableUI fetch) languagesToTry (globalTranslations ?s1) =
          globalTranslations ?s1 @ e"
      unfolding g by (rule G')
    show "dead_languages (globalTranslations ?s1 @ e) = map fst e"
      unfolding g by (rule d')
    show "sweep (map fst e) (globalTranslations ?s1 @ e) = globalTranslations ?s1"
      unfolding g by (rule g2)
    show "sweep (map fst e) (translationMetadata ?s1) = translationMetadata ?s1"
      unfolding m by (rule m2)
    show "magic_translations (localStorage ?s1) = Document (globalTranslations ?s1) \<and>
          magic_translation_metadata (localStorage ?s1) = Document (translationMetadata ?s1)"
      if "e \<noteq> []" and "enableUI"
    proof -
      from that(1) sub have "?d \<noteq> []" by auto
      with that(2) show ?thesis unfolding g m ls by simp
    qed
  qed
qed


text \<open>The load alone, which is the whole reconciliation of the second source file.\<close>

lemma loadProductionTranslations_idempotent:
  "loadProductionTranslations enableUI fetch (loadProductionTranslations enableUI fetch s) =
   loadProductionTranslations enableUI fetch s"
proof -
  let ?G = "fold (load_language enableUI fetch) languagesToTry (globalTranslations s)"
  have stable: "case map_of ?G L of
                  Some T \<Rightarrow> effective enableUI base (Some T) = T
                | None \<Rightarrow> L \<in> {} \<and> keys_or_empty (Some (effective enableUI base None)) = []"
    if "L \<in> set languagesToTry" and "fetch L = Some base" for L base
    using that by (simp add: fold_load_language_map_of effective_idem)
  have "appended enableUI fetch {} ?G []" by (simp add: appended_def)
  with stable
  have "\<exists>e. fold (load_language enableUI fetch) languagesToTry (?G @ []) = ?G @ e \<and>
             appended enableUI fetch {} ?G e"
    by (intro reload_appends) simp_all
  then obtain e where G': "fold (load_language enableUI fetch) languagesToTry ?G = ?G @ e"
    and ok: "appended enableUI fetch {} ?G e" by auto
  from ok have "set (map fst e) \<subseteq> {}" by (rule appended_keys)
  then have "e = []" by simp
  with G' show ?thesis by (simp add: loadProductionTranslations_def)
qed

text \<open>
  A run: the English document adds \<^verbatim>\<open>bye\<close> below the stored override, French is not
  fetched and stays, German arrives empty and is removed again.
\<close>

lemma reconcile_example:
  "globalTranslations (initializeTranslations True german_empty (two_language_store ''en'')) =
     [(''en'', JObj [(''bye'', JStr ''Bye''), (''hello'', JStr ''Hello'')]),
      (''fr'', JObj [(''hello'', JStr ''Bonjour'')])]"
  by (simp add: initializeTranslations_def loadProductionTranslations_def load_language_def
      languagesToTry_def german_empty_def two_language_store_def two_language_tree_def
      spread_def obj_assign_def obj_keys_def keys_or_empty_def obj_delete_def Let_def)

section \<open>Removing a language\<close>

text \<open>
  C8 does not hold of \<open>removeLanguage\<close>.  Take the store with the languages \<^verbatim>\<open>en\<close> and
  \<^verbatim>\<open>fr\<close>, persisted as it is, with \<^verbatim>\<open>fr\<close> active, and confirm the removal of \<^verbatim>\<open>fr\<close>.  The
  call returns normally and the active language becomes \<^verbatim>\<open>en\<close>, the first remaining
  language; but the translations are what they were, \<^verbatim>\<open>fr\<close> included, and the metadata
  of \<^verbatim>\<open>fr\<close> is still there.  \<open>setCurrentLang\<close> merges the persisted translations, which
  still hold \<^verbatim>\<open>fr\<close>, back into the store before \<open>saveToStorage\<close> runs, and no statement
  of \<open>removeLanguage\<close> deletes from the metadata.
\<close>

theorem removeLanguage_active_language_survives:
  "fst (removeLanguage True True ''fr'' (two_language_store ''fr'')) = None \<and>
   globalLang (snd (snd (removeLanguage True True ''fr'' (two_language_store ''fr'')))) = ''en'' \<and>
   globalTranslations (snd (snd (removeLanguage True True ''fr'' (two_language_store ''fr'')))) =
     two_language_tree \<and>
   map_of (translationMetadata
             (snd (snd (removeLanguage True True ''fr'' (two_language_store ''fr''))))) ''fr'' \<noteq>
     None"
  by (simp add: removeLanguage_def two_language_store_def two_language_tree_def
      french_metadata_def obj_keys_def obj_delete_def saveToStorage_def Let_def
      setCurrentLang_def spread_def obj_assign_def)

text \<open>
  With \<^verbatim>\<open>en\<close> active instead, the tree of \<^verbatim>\<open>fr\<close> is deleted and its metadata is not.
\<close>

lemma removeLanguage_keeps_metadata:
  "fst (removeLanguage True True ''fr'' (two_language_store ''en'')) = None \<and>
   map_of (globalTranslations
             (snd (snd (removeLanguage True True ''fr'' (two_language_store ''en''))))) ''fr'' =
     None \<and>
   map_of (translationMetadata
             (snd (snd (removeLanguage True True ''fr'' (two_language_store ''en''))))) ''fr'' \<noteq>
     None"
  by (simp add: removeLanguage_def two_language_store_def two_language_tree_def
      french_metadata_def obj_keys_def obj_delete_def saveToStorage_def Let_def)

text \<open>With at most one language in the store the call is refused and changes nothing.\<close>

lemma removeLanguage_refuses_last:
  "length (obj_keys (globalTranslations s)) \<le> 1 \<Longrightarrow>
   snd (snd (removeLanguage enableUI confirmed code s)) = s"
  by (simp add: removeLanguage_def)

section \<open>Construction of the store\<close>

text \<open>
  C9 does not hold of the initialisation of the module.  In override mode, with a
  persisted override text that \<^verbatim>\<open>JSON.parse\<close> rejects, the \<^verbatim>\<open>SyntaxError\<close> is not caught:
  the construction throws, and no store with an empty tree and empty metadata is built.
\<close>

theorem init_store_malformed_throws:
  "init_store True (sample_storage\<lparr>magic_translations := Malformed\<rparr>) = Inl SyntaxError"
  by (simp add: init_store_def sample_storage_def)

end
